theory Spec2Isabelle
  imports Main
begin

section \<open>The state machine framework\<close>

text \<open>
  The framework is the Go code of the article \<open>A Simple State Machine Framework in Go\<close>:
  the types \<open>StateType\<close>, \<open>EventType\<close>, \<open>Action\<close>, \<open>Events\<close>, \<open>State\<close>, \<open>States\<close> and
  \<open>StateMachine\<close>, and the two methods \<open>getNextState\<close> and \<open>SendEvent\<close>.

  Both identifier types are Go strings.
\<close>

type_synonym StateType = string
type_synonym EventType = string

datatype error = ErrEventRejected

definition Default :: StateType where
  "Default = ''''"

definition NoOp :: EventType where
  "NoOp = ''NoOp''"

text \<open>
  \<open>Action\<close> is an interface with the one method \<open>Execute(eventCtx) EventType\<close>. The
  method is arbitrary code of the host: it may write through \<open>eventCtx\<close>, change the
  fields of its receiver, print. All of that is the value of type \<open>'c\<close>, which
  \<open>Execute\<close> takes and gives back next to the event it returns. Two things are fixed
  by this type: an action returns, and it does not reach the machine that runs it.
  A field of interface type may be nil, hence the \<open>option\<close> in \<open>State\<close>; a Go map
  may be nil too, and \<open>getNextState\<close> tests for it.
\<close>

type_synonym 'c Action = "'c \<Rightarrow> EventType \<times> 'c"

type_synonym Events = "EventType \<rightharpoonup> StateType"

record 'c State =
  Action :: "'c Action option"
  Events :: "Events option"

type_synonym 'c States = "StateType \<rightharpoonup> 'c State"

text \<open>The field \<open>mutex\<close> has no counterpart: one call runs at a time in this model.\<close>

record 'c StateMachine =
  Previous :: StateType
  Current :: StateType
  States :: "'c States"

text \<open>
  \<open>state, ok := s.States[k]\<close>: the stored value and true, or the zero value of
  \<open>State\<close> (both fields nil) and false.
\<close>

definition lookup_State :: "'c States \<Rightarrow> StateType \<Rightarrow> 'c State \<times> bool" where
  "lookup_State m k =
     (case m k of
        Some state \<Rightarrow> (state, True)
      | None \<Rightarrow> (\<lparr>Action = None, Events = None\<rparr>, False))"

text \<open>\<open>getNextState\<close> returns a pair, the second component nil when the event is accepted.\<close>

definition getNextState :: "'c StateMachine \<Rightarrow> EventType \<Rightarrow> StateType \<times> error option" where
  "getNextState s event =
     (case States s (Current s) of
        Some state \<Rightarrow>
          (case Events state of
             Some evs \<Rightarrow>
               (case evs event of
                  Some next \<Rightarrow> (next, None)
                | None \<Rightarrow> (Default, Some ErrEventRejected))
           | None \<Rightarrow> (Default, Some ErrEventRejected))
      | None \<Rightarrow> (Default, Some ErrEventRejected))"

text \<open>
  A call of \<open>SendEvent\<close> ends in one of two ways: it returns an \<open>error\<close> (nil is
  \<open>None\<close>), or \<open>state.Action.Execute\<close> is called on a nil interface value and the
  goroutine panics with a nil dereference; the deferred \<open>Unlock\<close> runs and the fields
  written so far keep their values. A call may also never end: the \<open>for\<close> loop has no
  bound, so the loop is a partial function and \<open>None\<close> is the call that does not end.
\<close>

datatype panic = NilDereference

datatype outcome = Returned "error option" | Panicked panic

text \<open>
  One entry of the log per call of \<open>Execute\<close>, in the order of the calls: the two
  fields of the machine as they are when the action starts, and the event the action
  returned. The log is not data of the program; it is there to state which actions ran.
\<close>

record Execution =
  at_Previous :: StateType
  at_Current :: StateType
  nextEvent :: EventType

type_synonym 'c ending = "outcome \<times> 'c StateMachine \<times> 'c \<times> Execution list"

partial_function (option) SendEvent_loop ::
  "'c StateMachine \<Rightarrow> EventType \<Rightarrow> 'c \<Rightarrow> Execution list \<Rightarrow> 'c ending option"
where
  "SendEvent_loop s event eventCtx log =
     (case getNextState s event of
        (nextState, Some err) \<Rightarrow> Some (Returned (Some ErrEventRejected), s, eventCtx, log)
      | (nextState, None) \<Rightarrow>
          (case lookup_State (States s) nextState of
             (state, ok) \<Rightarrow>
               \<comment> \<open>\<open>if !ok || state.Action == nil { }\<close>: the branch is empty\<close>
               (let s' = s\<lparr>Previous := Current s\<rparr>;
                    s'' = s'\<lparr>Current := nextState\<rparr>
                in case Action state of
                     None \<Rightarrow> Some (Panicked NilDereference, s'', eventCtx, log)
                   | Some a \<Rightarrow>
                       (case a eventCtx of
                          (nextEv, eventCtx') \<Rightarrow>
                            (let log' = log @ [\<lparr>at_Previous = Previous s'',
                                                at_Current = Current s'',
                                                nextEvent = nextEv\<rparr>]
                             in if nextEv = NoOp
                                then Some (Returned None, s'', eventCtx', log')
                                else SendEvent_loop s'' nextEv eventCtx' log')))))"

definition SendEvent :: "'c StateMachine \<Rightarrow> EventType \<Rightarrow> 'c \<Rightarrow> 'c ending option" where
  "SendEvent s event eventCtx = SendEvent_loop s event eventCtx []"

declare SendEvent_loop.simps [code]

subsection \<open>The light switch\<close>

definition Off :: StateType where
  "Off = ''Off''"

definition On :: StateType where
  "On = ''On''"

definition SwitchOff :: EventType where
  "SwitchOff = ''SwitchOff''"

definition SwitchOn :: EventType where
  "SwitchOn = ''SwitchOn''"

text \<open>
  The two actions print a line and return \<open>NoOp\<close>. What they act on is the standard
  output, the list of the lines printed so far.
\<close>

definition OffAction :: "string list Action" where
  "OffAction stdout = (NoOp, stdout @ [''The light has been switched off''])"

definition OnAction :: "string list Action" where
  "OnAction stdout = (NoOp, stdout @ [''The light has been switched on''])"

text \<open>
  The composite literal leaves \<open>Previous\<close> and \<open>Current\<close> at the zero value of their
  type, the empty string, which is \<open>Default\<close>; the state \<open>Default\<close> has no action.
\<close>

definition newLightSwitchFSM :: "string list StateMachine" where
  "newLightSwitchFSM =
     \<lparr>Previous = Default, Current = Default,
      States = [Default \<mapsto> \<lparr>Action = None, Events = Some [SwitchOff \<mapsto> Off]\<rparr>,
                Off \<mapsto> \<lparr>Action = Some OffAction, Events = Some [SwitchOn \<mapsto> On]\<rparr>,
                On \<mapsto> \<lparr>Action = Some OnAction, Events = Some [SwitchOff \<mapsto> Off]\<rparr>]\<rparr>"

subsection \<open>Other machines\<close>

text \<open>
  The light switch with the action of \<open>Off\<close> left out, and with an event \<open>Dim\<close> that
  leads to a state that is not declared.
\<close>

definition Dim :: EventType where
  "Dim = ''Dim''"

definition Dimmed :: StateType where
  "Dimmed = ''Dimmed''"

definition miswiredFSM :: "string list StateMachine" where
  "miswiredFSM =
     \<lparr>Previous = Default, Current = Default,
      States = [Default \<mapsto> \<lparr>Action = None,
                             Events = Some [SwitchOff \<mapsto> Off, SwitchOn \<mapsto> On, Dim \<mapsto> Dimmed]\<rparr>,
                Off \<mapsto> \<lparr>Action = None, Events = Some [SwitchOn \<mapsto> On]\<rparr>,
                On \<mapsto> \<lparr>Action = Some OnAction, Events = Some [SwitchOff \<mapsto> Off]\<rparr>]\<rparr>"

text \<open>
  A switch whose \<open>On\<close> action asks for \<open>SwitchOn\<close> once more, an event that \<open>On\<close> does
  not accept.
\<close>

definition InsistAction :: "string list Action" where
  "InsistAction stdout = (SwitchOn, stdout @ [''The light has been switched on''])"

definition insistingFSM :: "string list StateMachine" where
  "insistingFSM =
     \<lparr>Previous = Default, Current = Default,
      States = [Default \<mapsto> \<lparr>Action = None, Events = Some [SwitchOn \<mapsto> On]\<rparr>,
                On \<mapsto> \<lparr>Action = Some InsistAction, Events = Some [SwitchOff \<mapsto> Off]\<rparr>,
                Off \<mapsto> \<lparr>Action = Some OffAction, Events = Some [SwitchOn \<mapsto> On]\<rparr>]\<rparr>"

text \<open>
  A light with a timer: entering \<open>On\<close> prints and asks for \<open>SwitchOff\<close> at once, so that
  one \<open>SwitchOn\<close> goes through \<open>On\<close> and comes to rest in \<open>Off\<close>.
\<close>

definition TimerAction :: "string list Action" where
  "TimerAction stdout = (SwitchOff, stdout @ [''The light has been switched on''])"

definition timerFSM :: "string list StateMachine" where
  "timerFSM =
     \<lparr>Previous = Default, Current = Default,
      States = [Default \<mapsto> \<lparr>Action = None, Events = Some [SwitchOn \<mapsto> On]\<rparr>,
                On \<mapsto> \<lparr>Action = Some TimerAction, Events = Some [SwitchOff \<mapsto> Off]\<rparr>,
                Off \<mapsto> \<lparr>Action = Some OffAction, Events = Some [SwitchOn \<mapsto> On]\<rparr>]\<rparr>"

text \<open>
  The same light with an \<open>Off\<close> action that asks for \<open>SwitchOff\<close> again, an event that
  \<open>Off\<close> does not accept: one \<open>SwitchOn\<close> goes through \<open>On\<close> to \<open>Off\<close> and is rejected there.
\<close>

definition RefuseAction :: "string list Action" where
  "RefuseAction stdout = (SwitchOff, stdout @ [''The light has been switched off''])"

definition overtimeFSM :: "string list StateMachine" where
  "overtimeFSM =
     \<lparr>Previous = Default, Current = Default,
      States = [Default \<mapsto> \<lparr>Action = None, Events = Some [SwitchOn \<mapsto> On]\<rparr>,
                On \<mapsto> \<lparr>Action = Some TimerAction, Events = Some [SwitchOff \<mapsto> Off]\<rparr>,
                Off \<mapsto> \<lparr>Action = Some RefuseAction, Events = Some [SwitchOn \<mapsto> On]\<rparr>]\<rparr>"

text \<open>
  A blinking light: each of the two actions asks for the other state. The context
  counts the calls of \<open>Execute\<close>.
\<close>

definition BlinkOffAction :: "nat Action" where
  "BlinkOffAction k = (SwitchOn, Suc k)"

definition BlinkOnAction :: "nat Action" where
  "BlinkOnAction k = (SwitchOff, Suc k)"

definition blinkerFSM :: "nat StateMachine" where
  "blinkerFSM =
     \<lparr>Previous = Default, Current = Default,
      States = [Default \<mapsto> \<lparr>Action = None, Events = Some [SwitchOff \<mapsto> Off]\<rparr>,
                Off \<mapsto> \<lparr>Action = Some BlinkOffAction, Events = Some [SwitchOn \<mapsto> On]\<rparr>,
                On \<mapsto> \<lparr>Action = Some BlinkOnAction, Events = Some [SwitchOff \<mapsto> Off]\<rparr>]\<rparr>"

text \<open>
  A switch whose \<open>Default\<close> state has an entry for the event \<open>NoOp\<close>, next to the entry
  for \<open>SwitchOff\<close> and with the same destination.
\<close>

definition noopFSM :: "string list StateMachine" where
  "noopFSM =
     \<lparr>Previous = Default, Current = Default,
      States = [Default \<mapsto> \<lparr>Action = None, Events = Some [NoOp \<mapsto> Off, SwitchOff \<mapsto> Off]\<rparr>,
                Off \<mapsto> \<lparr>Action = Some OffAction, Events = Some [SwitchOn \<mapsto> On]\<rparr>,
                On \<mapsto> \<lparr>Action = Some OnAction, Events = Some [SwitchOff \<mapsto> Off]\<rparr>]\<rparr>"

text \<open>The same switch wired without the action of \<open>Off\<close>.\<close>

definition noopMiswiredFSM :: "string list StateMachine" where
  "noopMiswiredFSM =
     \<lparr>Previous = Default, Current = Default,
      States = [Default \<mapsto> \<lparr>Action = None, Events = Some [NoOp \<mapsto> Off, SwitchOff \<mapsto> Off]\<rparr>,
                Off \<mapsto> \<lparr>Action = None, Events = Some [SwitchOn \<mapsto> On]\<rparr>,
                On \<mapsto> \<lparr>Action = Some OnAction, Events = Some [SwitchOff \<mapsto> Off]\<rparr>]\<rparr>"

text \<open>
  A machine at a state that is not declared, and one at a state declared with a nil
  transition table.
\<close>

definition strandedFSM :: "string list StateMachine" where
  "strandedFSM = newLightSwitchFSM\<lparr>Current := Dimmed\<rparr>"

definition tablelessFSM :: "string list StateMachine" where
  "tablelessFSM =
     \<lparr>Previous = Default, Current = Default,
      States = [Default \<mapsto> \<lparr>Action = None, Events = None\<rparr>]\<rparr>"

subsection \<open>Predicates on runs\<close>

text \<open>
  \<open>chained cur log\<close>: every call of \<open>Execute\<close> found in \<open>Previous\<close> the state that was
  current just before the transition that led to the call; \<open>cur\<close> is the state current
  before the first of them.
\<close>

fun chained :: "StateType \<Rightarrow> Execution list \<Rightarrow> bool" where
  "chained cur [] = True"
| "chained cur (x # xs) = (at_Previous x = cur \<and> chained (at_Current x) xs)"

text \<open>
  \<open>follows s cur event log\<close>: the calls of \<open>log\<close> are the transitions that the tables of
  \<open>s\<close> give, one after the other, from the state \<open>cur\<close> with the event \<open>event\<close>. Each call
  found in \<open>Previous\<close> the state the transition left and in \<open>Current\<close> the destination
  that \<open>getNextState\<close> gives there for the event in hand; the next transition starts
  from that destination with the event the action returned.
\<close>

fun follows :: "'c StateMachine \<Rightarrow> StateType \<Rightarrow> EventType \<Rightarrow> Execution list \<Rightarrow> bool" where
  "follows s cur event [] = True"
| "follows s cur event (x # xs) =
     (at_Previous x = cur \<and>
      getNextState (s\<lparr>Current := cur\<rparr>) event = (at_Current x, None) \<and>
      follows s (at_Current x) (nextEvent x) xs)"

text \<open>The event that the loop holds after the calls of \<open>log\<close>, having started with \<open>event\<close>.\<close>

definition pending :: "EventType \<Rightarrow> Execution list \<Rightarrow> EventType" where
  "pending event log = (if log = [] then event else nextEvent (last log))"

text \<open>
  \<open>cascades_forever S R\<close>: each state of \<open>R\<close> is declared with an action that never
  returns \<open>NoOp\<close>, and with a transition table that sends whatever the action returns
  to a state of \<open>R\<close> again.
\<close>

definition cascades_forever :: "'c States \<Rightarrow> StateType set \<Rightarrow> bool" where
  "cascades_forever S R =
     (\<forall>st \<in> R. \<exists>state a evs.
        S st = Some state \<and> Action state = Some a \<and> Events state = Some evs \<and>
        (\<forall>c. fst (a c) \<noteq> NoOp \<and> (\<exists>n \<in> R. evs (fst (a c)) = Some n)))"

text \<open>\<open>all_NoOp S\<close>: every action bound in \<open>S\<close> returns \<open>NoOp\<close>, whatever its context.\<close>

definition all_NoOp :: "'c States \<Rightarrow> bool" where
  "all_NoOp S = (\<forall>st state a c. S st = Some state \<and> Action state = Some a \<longrightarrow> fst (a c) = NoOp)"

section \<open>One turn of the loop\<close>

lemmas constants = Default_def NoOp_def Off_def On_def SwitchOff_def SwitchOn_def Dim_def Dimmed_def

lemmas unfold_run = SendEvent_def SendEvent_loop.simps getNextState_def lookup_State_def

lemma getNextState_rejects:
  "snd (getNextState s event) \<noteq> None \<longleftrightarrow>
     (States s (Current s) = None \<or>
      (\<exists>state. States s (Current s) = Some state \<and>
         (Events state = None \<or> (\<exists>evs. Events state = Some evs \<and> evs event = None))))"
  by (auto simp: getNextState_def split: option.splits)

lemma loop_rejected:
  assumes "snd (getNextState s event) \<noteq> None"
  shows "SendEvent_loop s event c log = Some (Returned (Some ErrEventRejected), s, c, log)"
  using assms by (subst SendEvent_loop.simps) (auto split: prod.splits option.splits)

lemma loop_nil:
  assumes "getNextState s event = (n, None)"
    and "Action (fst (lookup_State (States s) n)) = None"
  shows "SendEvent_loop s event c log =
         Some (Panicked NilDereference, s\<lparr>Previous := Current s, Current := n\<rparr>, c, log)"
  using assms by (subst SendEvent_loop.simps) (auto split: prod.splits option.splits)

lemma loop_execute:
  assumes "getNextState s event = (n, None)"
    and "Action (fst (lookup_State (States s) n)) = Some a"
    and "a c = (ev, c')"
  shows "SendEvent_loop s event c log =
         (if ev = NoOp
          then Some (Returned None, s\<lparr>Previous := Current s, Current := n\<rparr>, c',
                     log @ [\<lparr>at_Previous = Current s, at_Current = n, nextEvent = ev\<rparr>])
          else SendEvent_loop (s\<lparr>Previous := Current s, Current := n\<rparr>) ev c'
                     (log @ [\<lparr>at_Previous = Current s, at_Current = n, nextEvent = ev\<rparr>]))"
  using assms by (subst SendEvent_loop.simps) (auto split: prod.splits option.splits)

text \<open>
  Induction on a call that ends. The rule has one case for each way through the body
  of the loop: the event is rejected, the action is nil, the action returns \<open>NoOp\<close>, the
  action returns another event and the loop goes round.
\<close>

lemma loop_induct [consumes 1, case_names rejected nil noop cascade]:
  assumes run: "SendEvent_loop s event c log = Some r"
    and rejected: "\<And>s event c log.
        snd (getNextState s event) \<noteq> None \<Longrightarrow>
        P s event c log (Returned (Some ErrEventRejected), s, c, log)"
    and nil: "\<And>s event c log n.
        getNextState s event = (n, None) \<Longrightarrow>
        Action (fst (lookup_State (States s) n)) = None \<Longrightarrow>
        P s event c log
          (Panicked NilDereference, s\<lparr>Previous := Current s, Current := n\<rparr>, c, log)"
    and noop: "\<And>s event c log n a c'.
        getNextState s event = (n, None) \<Longrightarrow>
        Action (fst (lookup_State (States s) n)) = Some a \<Longrightarrow>
        a c = (NoOp, c') \<Longrightarrow>
        P s event c log
          (Returned None, s\<lparr>Previous := Current s, Current := n\<rparr>, c',
           log @ [\<lparr>at_Previous = Current s, at_Current = n, nextEvent = NoOp\<rparr>])"
    and cascade: "\<And>s event c log n a ev c' r.
        getNextState s event = (n, None) \<Longrightarrow>
        Action (fst (lookup_State (States s) n)) = Some a \<Longrightarrow>
        a c = (ev, c') \<Longrightarrow> ev \<noteq> NoOp \<Longrightarrow>
        P (s\<lparr>Previous := Current s, Current := n\<rparr>) ev c'
          (log @ [\<lparr>at_Previous = Current s, at_Current = n, nextEvent = ev\<rparr>]) r \<Longrightarrow>
        P s event c log r"
  shows "P s event c log r"
proof (rule SendEvent_loop.raw_induct [where P = P, OF _ run])
  fix loop :: "'a StateMachine \<Rightarrow> EventType \<Rightarrow> 'a \<Rightarrow> Execution list \<Rightarrow> 'a ending option"
  fix s event c log r
  assume IH: "\<And>s event c log r. loop s event c log = Some r \<Longrightarrow> P s event c log r"
  assume body: "(case getNextState s event of
        (nextState, Some err) \<Rightarrow> Some (Returned (Some ErrEventRejected), s, c, log)
      | (nextState, None) \<Rightarrow>
          (case lookup_State (States s) nextState of
             (state, ok) \<Rightarrow>
               (let s' = s\<lparr>Previous := Current s\<rparr>;
                    s'' = s'\<lparr>Current := nextState\<rparr>
                in case Action state of
                     None \<Rightarrow> Some (Panicked NilDereference, s'', c, log)
                   | Some a \<Rightarrow>
                       (case a c of
                          (nextEv, eventCtx') \<Rightarrow>
                            (let log' = log @ [\<lparr>at_Previous = Previous s'',
                                                at_Current = Current s'',
                                                nextEvent = nextEv\<rparr>]
                             in if nextEv = NoOp
                                then Some (Returned None, s'', eventCtx', log')
                                else loop s'' nextEv eventCtx' log'))))) = Some r"
  obtain n e where g: "getNextState s event = (n, e)"
    by (cases "getNextState s event")
  show "P s event c log r"
  proof (cases e)
    case (Some err)
    with g body rejected [of s event c log] show ?thesis by simp
  next
    case None
    note e = this
    obtain state ok where l: "lookup_State (States s) n = (state, ok)"
      by (cases "lookup_State (States s) n")
    show ?thesis
    proof (cases "Action state")
      case None
      with g e l body nil [of s event n c log] show ?thesis by simp
    next
      case (Some a)
      obtain ev c' where a: "a c = (ev, c')"
        by (cases "a c")
      show ?thesis
      proof (cases "ev = NoOp")
        case True
        with g e l Some a body noop [of s event n a c c' log] show ?thesis by simp
      next
        case False
        with g e l Some a body
        have "loop (s\<lparr>Previous := Current s, Current := n\<rparr>) ev c'
                (log @ [\<lparr>at_Previous = Current s, at_Current = n, nextEvent = ev\<rparr>]) = Some r"
          by simp
        from IH [OF this] g e l Some a False show ?thesis
          by (intro cascade [of s event n a c ev c']) simp_all
      qed
    qed
  qed
qed

text \<open>The loop writes \<open>Previous\<close> and \<open>Current\<close> and no other field.\<close>

lemma loop_frame:
  assumes "SendEvent_loop s event c log = Some r"
  shows "fst (snd r) = s\<lparr>Previous := Previous (fst (snd r)), Current := Current (fst (snd r))\<rparr>"
  using assms by (induction rule: loop_induct) simp_all

text \<open>
  The log of a call that ends: what was there before the call, then the calls of
  \<open>Execute\<close> of this call, chained; and the machine is as the last transition left it.
\<close>

lemma loop_log:
  assumes "SendEvent_loop s event c log = Some r"
  shows "\<exists>ext. snd (snd (snd r)) = log @ ext \<and> chained (Current s) ext \<and>
           (case fst r of
              Returned e \<Rightarrow>
                (if ext = [] then fst (snd r) = s \<and> fst (snd (snd r)) = c
                 else Previous (fst (snd r)) = at_Previous (last ext) \<and>
                      Current (fst (snd r)) = at_Current (last ext))
            | Panicked p \<Rightarrow>
                Previous (fst (snd r)) = (if ext = [] then Current s else at_Current (last ext)))"
  using assms
proof (induction rule: loop_induct)
  case (cascade s event c log n a ev c' r)
  let ?x = "\<lparr>at_Previous = Current s, at_Current = n, nextEvent = ev\<rparr>"
  let ?s = "s\<lparr>Previous := Current s, Current := n\<rparr>"
  from cascade.IH obtain ext where ext: "snd (snd (snd r)) = (log @ [?x]) @ ext"
    and ch: "chained (Current ?s) ext"
    and fin: "case fst r of
              Returned e \<Rightarrow>
                (if ext = [] then fst (snd r) = ?s \<and> fst (snd (snd r)) = c'
                 else Previous (fst (snd r)) = at_Previous (last ext) \<and>
                      Current (fst (snd r)) = at_Current (last ext))
            | Panicked p \<Rightarrow>
                Previous (fst (snd r)) = (if ext = [] then Current ?s else at_Current (last ext))"
    by blast
  show ?case
  proof (intro exI [of _ "?x # ext"] conjI)
    show "snd (snd (snd r)) = log @ ?x # ext" using ext by simp
    show "chained (Current s) (?x # ext)" using ch by simp
    show "case fst r of
            Returned e \<Rightarrow>
              (if ?x # ext = [] then fst (snd r) = s \<and> fst (snd (snd r)) = c
               else Previous (fst (snd r)) = at_Previous (last (?x # ext)) \<and>
                    Current (fst (snd r)) = at_Current (last (?x # ext)))
          | Panicked p \<Rightarrow>
              Previous (fst (snd r)) =
                (if ?x # ext = [] then Current s else at_Current (last (?x # ext)))"
      using fin by (cases "fst r") (auto split: if_splits)
  qed
qed auto

text \<open>How a call that ends has ended.\<close>

lemma loop_exit:
  assumes "SendEvent_loop s event c log = Some r"
  shows "\<exists>ext. snd (snd (snd r)) = log @ ext \<and>
           (case fst r of
              Returned None \<Rightarrow> ext \<noteq> [] \<and> nextEvent (last ext) = NoOp
            | Returned (Some e) \<Rightarrow>
                e = ErrEventRejected \<and> snd (getNextState (fst (snd r)) (pending event ext)) \<noteq> None
            | Panicked p \<Rightarrow> True)"
  using assms
proof (induction rule: loop_induct)
  case (cascade s event c log n a ev c' r)
  let ?x = "\<lparr>at_Previous = Current s, at_Current = n, nextEvent = ev\<rparr>"
  from cascade.IH obtain ext where ext: "snd (snd (snd r)) = (log @ [?x]) @ ext"
    and fin: "case fst r of
              Returned None \<Rightarrow> ext \<noteq> [] \<and> nextEvent (last ext) = NoOp
            | Returned (Some e) \<Rightarrow>
                e = ErrEventRejected \<and> snd (getNextState (fst (snd r)) (pending ev ext)) \<noteq> None
            | Panicked p \<Rightarrow> True"
    by blast
  have p: "pending event (?x # ext) = pending ev ext"
    by (simp add: pending_def)
  show ?case
  proof (intro exI [of _ "?x # ext"] conjI)
    show "snd (snd (snd r)) = log @ ?x # ext" using ext by simp
    show "case fst r of
            Returned None \<Rightarrow> ?x # ext \<noteq> [] \<and> nextEvent (last (?x # ext)) = NoOp
          | Returned (Some e) \<Rightarrow>
              e = ErrEventRejected \<and>
              snd (getNextState (fst (snd r)) (pending event (?x # ext))) \<noteq> None
          | Panicked p \<Rightarrow> True"
      using fin unfolding p by (auto split: outcome.splits option.splits)
  qed
qed (auto simp: pending_def)

text \<open>A call that reaches a destination with no action, whether declared or not.\<close>

lemma SendEvent_nil_action:
  assumes "getNextState s event = (n, None)"
    and "States s n = None \<or> (\<exists>state. States s n = Some state \<and> Action state = None)"
  shows "SendEvent s event c =
         Some (Panicked NilDereference, s\<lparr>Previous := Current s, Current := n\<rparr>, c, [])"
proof -
  from assms(2) have "Action (fst (lookup_State (States s) n)) = None"
    by (auto simp: lookup_State_def)
  with assms(1) show ?thesis
    unfolding SendEvent_def by (rule loop_nil)
qed

text \<open>A loop that goes round for ever.\<close>

lemma cascades_foreverD:
  assumes "cascades_forever S R" and "n \<in> R"
  obtains state a evs where "S n = Some state" and "Events state = Some evs"
    and "Action (fst (lookup_State S n)) = Some a"
    and "\<And>c. fst (a c) \<noteq> NoOp" and "\<And>c. \<exists>m \<in> R. evs (fst (a c)) = Some m"
proof -
  from assms obtain state a evs where 1: "S n = Some state" and 2: "Action state = Some a"
    and 3: "Events state = Some evs"
    and 4: "\<forall>c. fst (a c) \<noteq> NoOp \<and> (\<exists>m \<in> R. evs (fst (a c)) = Some m)"
    unfolding cascades_forever_def by blast
  from 1 2 have "Action (fst (lookup_State S n)) = Some a"
    by (simp add: lookup_State_def)
  with 1 3 4 that show thesis
    by blast
qed

lemma loop_never_ends:
  assumes R: "cascades_forever (States s) R"
    and g: "getNextState s event = (n, None)"
    and n: "n \<in> R"
  shows "SendEvent_loop s event c log = None"
proof (rule ccontr)
  assume "SendEvent_loop s event c log \<noteq> None"
  then obtain r where "SendEvent_loop s event c log = Some r"
    by auto
  then have "\<not> (cascades_forever (States s) R \<and> (\<exists>n \<in> R. getNextState s event = (n, None)))"
  proof (induction rule: loop_induct)
    case (rejected s event c log)
    then show ?case by auto
  next
    case (nil s event c log n)
    show ?case
    proof
      assume "cascades_forever (States s) R \<and> (\<exists>n \<in> R. getNextState s event = (n, None))"
      with nil(1) have "cascades_forever (States s) R" and "n \<in> R"
        by auto
      then obtain b where "Action (fst (lookup_State (States s) n)) = Some b"
        by (rule cascades_foreverD) blast
      with nil(2) show False
        by simp
    qed
  next
    case (noop s event c log n a c')
    show ?case
    proof
      assume "cascades_forever (States s) R \<and> (\<exists>n \<in> R. getNextState s event = (n, None))"
      with noop(1) have "cascades_forever (States s) R" and "n \<in> R"
        by auto
      then obtain b where "Action (fst (lookup_State (States s) n)) = Some b"
        and "\<And>c. fst (b c) \<noteq> NoOp"
        by (rule cascades_foreverD) blast
      with noop(2) have "fst (a c) \<noteq> NoOp"
        by simp
      with noop(3) show False
        by simp
    qed
  next
    case (cascade s event c log n a ev c' r)
    let ?s = "s\<lparr>Previous := Current s, Current := n\<rparr>"
    show ?case
    proof
      assume "cascades_forever (States s) R \<and> (\<exists>n \<in> R. getNextState s event = (n, None))"
      with cascade(1) have cf: "cascades_forever (States s) R" and "n \<in> R"
        by auto
      then obtain state b evs where st: "States s n = Some state"
        and evs: "Events state = Some evs"
        and "Action (fst (lookup_State (States s) n)) = Some b"
        and b: "\<And>c. \<exists>m \<in> R. evs (fst (b c)) = Some m"
        by (rule cascades_foreverD) blast
      with cascade(2) have "b = a"
        by simp
      with b [of c] cascade(3) obtain m where "m \<in> R" and "evs ev = Some m"
        by auto
      with st evs have "getNextState ?s ev = (m, None)"
        by (simp add: getNextState_def)
      with \<open>m \<in> R\<close> cf cascade.IH show False
        by auto
    qed
  qed
  with R g n show False
    by blast
qed

text \<open>
  The log of a call that ends is made of the transitions the tables give. Only the
  field \<open>States\<close> of the machine matters to \<open>follows\<close>.
\<close>

lemma follows_States:
  assumes "States a = States b"
  shows "follows a cur event xs = follows b cur event xs"
proof (induction xs arbitrary: cur event)
  case Nil
  show ?case by simp
next
  case (Cons x xs)
  from assms have "getNextState (a\<lparr>Current := cur\<rparr>) event = getNextState (b\<lparr>Current := cur\<rparr>) event"
    by (simp add: getNextState_def)
  with Cons show ?case
    by simp
qed

lemma loop_follows:
  assumes "SendEvent_loop s event c log = Some r"
  shows "\<exists>ext. snd (snd (snd r)) = log @ ext \<and> follows s (Current s) event ext"
  using assms
proof (induction rule: loop_induct)
  case (noop s event c log n a c')
  let ?x = "\<lparr>at_Previous = Current s, at_Current = n, nextEvent = NoOp\<rparr>"
  from noop(1) have "follows s (Current s) event [?x]"
    by simp
  then show ?case
    by (intro exI [of _ "[?x]"]) simp
next
  case (cascade s event c log n a ev c' r)
  let ?x = "\<lparr>at_Previous = Current s, at_Current = n, nextEvent = ev\<rparr>"
  let ?s = "s\<lparr>Previous := Current s, Current := n\<rparr>"
  from cascade.IH obtain ext where ext: "snd (snd (snd r)) = (log @ [?x]) @ ext"
    and f: "follows ?s (Current ?s) ev ext"
    by blast
  have "follows ?s n ev ext = follows s n ev ext"
    by (rule follows_States) simp
  with f cascade(1) have "follows s (Current s) event (?x # ext)"
    by simp
  with ext show ?case
    by (intro exI [of _ "?x # ext"]) simp
qed simp_all

lemma follows_last:
  assumes "follows s cur event log" and "log \<noteq> []"
  shows "at_Previous (last log) =
           (if butlast log = [] then cur else at_Current (last (butlast log))) \<and>
         getNextState (s\<lparr>Current := at_Previous (last log)\<rparr>) (pending event (butlast log)) =
           (at_Current (last log), None)"
  using assms
proof (induction log arbitrary: cur event)
  case Nil
  then show ?case by simp
next
  case (Cons x xs)
  show ?case
  proof (cases "xs = []")
    case True
    with Cons.prems show ?thesis
      by (simp add: pending_def)
  next
    case False
    from Cons.prems have "follows s (at_Current x) (nextEvent x) xs"
      by simp
    from Cons.IH [OF this False]
    have both: "at_Previous (last xs) =
               (if butlast xs = [] then at_Current x else at_Current (last (butlast xs))) \<and>
             getNextState (s\<lparr>Current := at_Previous (last xs)\<rparr>)
                (pending (nextEvent x) (butlast xs)) = (at_Current (last xs), None)" .
    from both have 1: "at_Previous (last xs) =
               (if butlast xs = [] then at_Current x else at_Current (last (butlast xs)))"
      by (rule conjunct1)
    from both have 2: "getNextState (s\<lparr>Current := at_Previous (last xs)\<rparr>)
                (pending (nextEvent x) (butlast xs)) = (at_Current (last xs), None)"
      by (rule conjunct2)
    have 3: "pending event (x # butlast xs) = pending (nextEvent x) (butlast xs)"
      by (simp add: pending_def)
    have 4: "last (x # xs) = last xs" and 5: "butlast (x # xs) = x # butlast xs"
      using False by simp_all
    have 6: "at_Current (last (x # butlast xs)) =
               (if butlast xs = [] then at_Current x else at_Current (last (butlast xs)))"
      by simp
    show ?thesis
      unfolding 4 5 3 6 using 1 2 by simp
  qed
qed

section \<open>The claims\<close>

text \<open>
  C1. A destination that is absent from the state collection, or declared with no
  action, is to make \<open>SendEvent\<close> fail with a configuration error, before any transition.
  The code does otherwise: the branch that detects the case is empty, the two fields
  are written, and the call of \<open>Execute\<close> on the nil action panics. On the light switch
  wired without the action of \<open>Off\<close>, the event \<open>SwitchOff\<close> leaves the machine in \<open>Off\<close>
  and the call ends in the panic, with no error returned; the same with \<open>Dim\<close>, whose
  destination is not declared.
\<close>

theorem SendEvent_nil_action_panics:
  "SendEvent miswiredFSM SwitchOff [] =
     Some (Panicked NilDereference, miswiredFSM\<lparr>Previous := Default, Current := Off\<rparr>, [], []) \<and>
   SendEvent miswiredFSM Dim [] =
     Some (Panicked NilDereference, miswiredFSM\<lparr>Previous := Default, Current := Dimmed\<rparr>, [], [])"
  by (simp add: unfold_run miswiredFSM_def constants)

text \<open>
  C2, as stated: a call that returns \<open>ErrEventRejected\<close> leaves \<open>Current\<close> and \<open>Previous\<close>
  as they were before the call, also when the rejection comes after cascaded
  transitions. It does not: on the switch whose \<open>On\<close> action asks for \<open>SwitchOn\<close> again,
  the event \<open>SwitchOn\<close> moves the machine from \<open>Default\<close> to \<open>On\<close>, the action runs, the
  event it returns is rejected in \<open>On\<close>, and the call returns \<open>ErrEventRejected\<close> with
  \<open>Current\<close> at \<open>On\<close>.
\<close>

theorem rejected_after_cascade_counterexample:
  "SendEvent insistingFSM SwitchOn [] =
     Some (Returned (Some ErrEventRejected), insistingFSM\<lparr>Previous := Default, Current := On\<rparr>,
           [''The light has been switched on''],
           [\<lparr>at_Previous = Default, at_Current = On, nextEvent = SwitchOn\<rparr>]) \<and>
   Current (insistingFSM\<lparr>Previous := Default, Current := On\<rparr>) \<noteq> Current insistingFSM"
  by (simp add: unfold_run insistingFSM_def InsistAction_def constants)

text \<open>
  C2, amended. A call that returns \<open>ErrEventRejected\<close> leaves the machine as the last
  transition of the call left it. If the call made no transition (the event submitted
  was itself rejected, no action ran), the machine and the context are as before the
  call. If the rejection comes after cascaded transitions, they stay: \<open>Current\<close> is the
  state entered last, and \<open>Previous\<close> the state that was current just before that
  transition, which is the state current before the call when the call made one
  transition and the state entered by the transition before otherwise. The transitions
  are those of the tables, from the state current before the call: \<open>Current\<close> is the
  destination that the table of \<open>Previous\<close> gives for the event in hand at the last
  transition, and the event rejected is rejected in \<open>Current\<close>. The field \<open>States\<close> is
  as before.
\<close>

theorem SendEvent_rejected_state:
  assumes "SendEvent s event c = Some (Returned (Some ErrEventRejected), s', c', log)"
  shows "States s' = States s \<and>
         follows s (Current s) event log \<and>
         snd (getNextState s' (pending event log)) \<noteq> None \<and>
         (if log = [] then s' = s \<and> c' = c
          else Current s' = at_Current (last log) \<and>
               Previous s' =
                 (if butlast log = [] then Current s else at_Current (last (butlast log))) \<and>
               getNextState (s\<lparr>Current := Previous s'\<rparr>) (pending event (butlast log)) =
                 (Current s', None))"
proof -
  from assms
  have run: "SendEvent_loop s event c [] = Some (Returned (Some ErrEventRejected), s', c', log)"
    by (simp add: SendEvent_def)
  from loop_frame [OF run] have "s' = s\<lparr>Previous := Previous s', Current := Current s'\<rparr>"
    by simp
  then have "States s' = States (s\<lparr>Previous := Previous s', Current := Current s'\<rparr>)"
    by simp
  then have frame: "States s' = States s"
    by simp
  from loop_follows [OF run] have f: "follows s (Current s) event log"
    by simp
  from loop_exit [OF run] have rej: "snd (getNextState s' (pending event log)) \<noteq> None"
    by simp
  from loop_log [OF run]
  have fin: "if log = [] then s' = s \<and> c' = c
             else Previous s' = at_Previous (last log) \<and> Current s' = at_Current (last log)"
    by (auto split: if_splits)
  show ?thesis
  proof (cases "log = []")
    case True
    with frame f rej fin show ?thesis
      by simp
  next
    case False
    with fin have p: "Previous s' = at_Previous (last log)"
      and c: "Current s' = at_Current (last log)"
      by simp_all
    note last = follows_last [OF f False]
    from last have "at_Previous (last log) =
        (if butlast log = [] then Current s else at_Current (last (butlast log)))"
      by (rule conjunct1)
    with p have P: "Previous s' =
        (if butlast log = [] then Current s else at_Current (last (butlast log)))"
      by (rule trans)
    from last have "getNextState (s\<lparr>Current := at_Previous (last log)\<rparr>)
        (pending event (butlast log)) = (at_Current (last log), None)"
      by (rule conjunct2)
    then have G: "getNextState (s\<lparr>Current := Previous s'\<rparr>) (pending event (butlast log)) =
        (Current s', None)"
      by (simp only: p c)
    from False frame f rej c P G show ?thesis
      by (simp only: if_False simp_thms)
  qed
qed

theorem SendEvent_rejected_state_witness:
  "SendEvent (insistingFSM\<lparr>Previous := On, Current := Off\<rparr>) SwitchOn [] =
     Some (Returned (Some ErrEventRejected), insistingFSM\<lparr>Previous := Off, Current := On\<rparr>,
           [''The light has been switched on''],
           [\<lparr>at_Previous = Off, at_Current = On, nextEvent = SwitchOn\<rparr>]) \<and>
   Previous (insistingFSM\<lparr>Previous := Off, Current := On\<rparr>) =
     Current (insistingFSM\<lparr>Previous := On, Current := Off\<rparr>) \<and>
   Previous (insistingFSM\<lparr>Previous := Off, Current := On\<rparr>) \<noteq>
     Previous (insistingFSM\<lparr>Previous := On, Current := Off\<rparr>) \<and>
   getNextState (insistingFSM\<lparr>Previous := On, Current := Off\<rparr>) SwitchOn = (On, None) \<and>
   SendEvent overtimeFSM SwitchOn [] =
     Some (Returned (Some ErrEventRejected), overtimeFSM\<lparr>Previous := On, Current := Off\<rparr>,
           [''The light has been switched on'', ''The light has been switched off''],
           [\<lparr>at_Previous = Default, at_Current = On, nextEvent = SwitchOff\<rparr>,
            \<lparr>at_Previous = On, at_Current = Off, nextEvent = SwitchOff\<rparr>]) \<and>
   follows overtimeFSM (Current overtimeFSM) SwitchOn
     [\<lparr>at_Previous = Default, at_Current = On, nextEvent = SwitchOff\<rparr>,
      \<lparr>at_Previous = On, at_Current = Off, nextEvent = SwitchOff\<rparr>] \<and>
   Previous (overtimeFSM\<lparr>Previous := On, Current := Off\<rparr>) = On \<and>
   Current (overtimeFSM\<lparr>Previous := On, Current := Off\<rparr>) = Off \<and>
   getNextState (overtimeFSM\<lparr>Current := On\<rparr>) SwitchOff = (Off, None) \<and>
   SendEvent insistingFSM SwitchOff [] =
     Some (Returned (Some ErrEventRejected), insistingFSM, [], [])"
  using SendEvent_rejected_state [of "insistingFSM\<lparr>Previous := On, Current := Off\<rparr>"
      SwitchOn "[]" "insistingFSM\<lparr>Previous := Off, Current := On\<rparr>"
      "[''The light has been switched on'']"
      "[\<lparr>at_Previous = Off, at_Current = On, nextEvent = SwitchOn\<rparr>]"]
    SendEvent_rejected_state [of overtimeFSM SwitchOn "[]"
      "overtimeFSM\<lparr>Previous := On, Current := Off\<rparr>"
      "[''The light has been switched on'', ''The light has been switched off'']"
      "[\<lparr>at_Previous = Default, at_Current = On, nextEvent = SwitchOff\<rparr>,
        \<lparr>at_Previous = On, at_Current = Off, nextEvent = SwitchOff\<rparr>]"]
    SendEvent_rejected_state [of insistingFSM SwitchOff "[]" insistingFSM "[]" "[]"]
  by (simp add: unfold_run insistingFSM_def overtimeFSM_def InsistAction_def TimerAction_def
      RefuseAction_def pending_def constants)

text \<open>
  C3. If the current state is not in the state collection, or is there with a nil
  transition table or with a table that has no entry for the event, \<open>SendEvent\<close>
  returns \<open>ErrEventRejected\<close>; no action is called (the log is empty), and the machine
  and the context are as before.
\<close>

theorem SendEvent_rejected:
  assumes "States s (Current s) = None \<or>
           (\<exists>state. States s (Current s) = Some state \<and>
              (Events state = None \<or> (\<exists>evs. Events state = Some evs \<and> evs event = None)))"
  shows "SendEvent s event c = Some (Returned (Some ErrEventRejected), s, c, [])"
proof -
  from assms have "snd (getNextState s event) \<noteq> None"
    by (simp only: getNextState_rejects)
  then show ?thesis
    unfolding SendEvent_def by (rule loop_rejected)
qed

theorem SendEvent_rejected_witness:
  "States strandedFSM (Current strandedFSM) = None \<and>
   SendEvent strandedFSM SwitchOff [] =
     Some (Returned (Some ErrEventRejected), strandedFSM, [], []) \<and>
   States tablelessFSM (Current tablelessFSM) = Some \<lparr>Action = None, Events = None\<rparr> \<and>
   SendEvent tablelessFSM SwitchOff [] =
     Some (Returned (Some ErrEventRejected), tablelessFSM, [], []) \<and>
   States newLightSwitchFSM (Current newLightSwitchFSM) =
     Some \<lparr>Action = None, Events = Some [SwitchOff \<mapsto> Off]\<rparr> \<and>
   [SwitchOff \<mapsto> Off] SwitchOn = None \<and>
   SendEvent newLightSwitchFSM SwitchOn [] =
     Some (Returned (Some ErrEventRejected), newLightSwitchFSM, [], [])"
  using SendEvent_rejected [of strandedFSM SwitchOff "[]"]
    SendEvent_rejected [of tablelessFSM SwitchOff "[]"]
    SendEvent_rejected [of newLightSwitchFSM SwitchOn "[]"]
  by (simp add: strandedFSM_def tablelessFSM_def newLightSwitchFSM_def constants)

text \<open>
  C4. The event is accepted and leads to \<open>mid\<close>; the action of \<open>mid\<close> returns an event
  \<open>ev\<close> other than \<open>NoOp\<close>, which \<open>mid\<close> accepts and which leads to \<open>fin\<close>; the action of
  \<open>fin\<close> returns \<open>NoOp\<close>. Then one call of \<open>SendEvent\<close> returns nil with \<open>Current\<close> at
  \<open>fin\<close> and \<open>Previous\<close> at \<open>mid\<close>, and its log has two calls of \<open>Execute\<close>: the action
  of \<open>mid\<close>, then the action of \<open>fin\<close>, once each.
\<close>

theorem SendEvent_cascade:
  assumes "getNextState s event = (mid, None)"
    and "States s mid = Some stM" and "Action stM = Some aM" and "aM c = (ev, c1)"
    and "ev \<noteq> NoOp"
    and "Events stM = Some evs" and "evs ev = Some fin"
    and "States s fin = Some stF" and "Action stF = Some aF" and "aF c1 = (NoOp, c2)"
  shows "SendEvent s event c =
         Some (Returned None, s\<lparr>Previous := mid, Current := fin\<rparr>, c2,
               [\<lparr>at_Previous = Current s, at_Current = mid, nextEvent = ev\<rparr>,
                \<lparr>at_Previous = mid, at_Current = fin, nextEvent = NoOp\<rparr>])"
proof -
  let ?s = "s\<lparr>Previous := Current s, Current := mid\<rparr>"
  let ?x = "\<lparr>at_Previous = Current s, at_Current = mid, nextEvent = ev\<rparr>"
  from assms(2,3) have aM: "Action (fst (lookup_State (States s) mid)) = Some aM"
    by (simp add: lookup_State_def)
  from assms(2,6,7) have g: "getNextState ?s ev = (fin, None)"
    by (simp add: getNextState_def)
  from assms(8,9) have aF: "Action (fst (lookup_State (States ?s) fin)) = Some aF"
    by (simp add: lookup_State_def)
  have "SendEvent s event c = SendEvent_loop ?s ev c1 [?x]"
    using loop_execute [OF assms(1) aM assms(4), of "[]"] assms(5)
    by (simp add: SendEvent_def)
  also have "\<dots> = Some (Returned None, ?s\<lparr>Previous := Current ?s, Current := fin\<rparr>, c2,
      [?x] @ [\<lparr>at_Previous = Current ?s, at_Current = fin, nextEvent = NoOp\<rparr>])"
    using loop_execute [OF g aF assms(10), of "[?x]"]
    by simp
  finally show ?thesis
    by simp
qed

theorem SendEvent_cascade_witness:
  "getNextState timerFSM SwitchOn = (On, None) \<and>
   TimerAction [] = (SwitchOff, [''The light has been switched on'']) \<and>
   SwitchOff \<noteq> NoOp \<and>
   OffAction [''The light has been switched on''] =
     (NoOp, [''The light has been switched on'', ''The light has been switched off'']) \<and>
   SendEvent timerFSM SwitchOn [] =
     Some (Returned None, timerFSM\<lparr>Previous := On, Current := Off\<rparr>,
           [''The light has been switched on'', ''The light has been switched off''],
           [\<lparr>at_Previous = Current timerFSM, at_Current = On, nextEvent = SwitchOff\<rparr>,
            \<lparr>at_Previous = On, at_Current = Off, nextEvent = NoOp\<rparr>])"
  using SendEvent_cascade [of timerFSM SwitchOn On
      "\<lparr>Action = Some TimerAction, Events = Some [SwitchOff \<mapsto> Off]\<rparr>" TimerAction
      "[]" SwitchOff "[''The light has been switched on'']" "[SwitchOff \<mapsto> Off]" Off
      "\<lparr>Action = Some OffAction, Events = Some [SwitchOn \<mapsto> On]\<rparr>" OffAction
      "[''The light has been switched on'', ''The light has been switched off'']"]
  by (simp add: getNextState_def timerFSM_def TimerAction_def OffAction_def constants)

text \<open>
  C5. In a call that ends, every call of \<open>Execute\<close> finds \<open>Current\<close> at the state it
  belongs to and \<open>Previous\<close> at the state that was current just before that transition:
  the two fields are written before the action starts, and the log is chained from the
  state current before the call. When the call returns, the machine holds the pair of
  the last transition. When it panics, one more transition has been made, with no
  call of \<open>Execute\<close>, and \<open>Previous\<close> is the state that was current before it.
\<close>

theorem SendEvent_Previous:
  assumes "SendEvent s event c = Some (out, s', c', log)"
  shows "chained (Current s) log \<and>
         (case out of
            Returned e \<Rightarrow>
              log \<noteq> [] \<longrightarrow>
              Previous s' = at_Previous (last log) \<and> Current s' = at_Current (last log)
          | Panicked p \<Rightarrow>
              Previous s' = (if log = [] then Current s else at_Current (last log)))"
proof -
  from assms have "SendEvent_loop s event c [] = Some (out, s', c', log)"
    by (simp add: SendEvent_def)
  from loop_log [OF this] show ?thesis
    by (cases out) (auto split: if_splits)
qed

theorem SendEvent_Previous_witness:
  "SendEvent timerFSM SwitchOn [] =
     Some (Returned None, timerFSM\<lparr>Previous := On, Current := Off\<rparr>,
           [''The light has been switched on'', ''The light has been switched off''],
           [\<lparr>at_Previous = Default, at_Current = On, nextEvent = SwitchOff\<rparr>,
            \<lparr>at_Previous = On, at_Current = Off, nextEvent = NoOp\<rparr>]) \<and>
   chained (Current timerFSM)
     [\<lparr>at_Previous = Default, at_Current = On, nextEvent = SwitchOff\<rparr>,
      \<lparr>at_Previous = On, at_Current = Off, nextEvent = NoOp\<rparr>] \<and>
   Previous (timerFSM\<lparr>Previous := On, Current := Off\<rparr>) = On \<and>
   Current (timerFSM\<lparr>Previous := On, Current := Off\<rparr>) = Off"
  using SendEvent_Previous [of timerFSM SwitchOn "[]" "Returned None"
      "timerFSM\<lparr>Previous := On, Current := Off\<rparr>"
      "[''The light has been switched on'', ''The light has been switched off'']"
      "[\<lparr>at_Previous = Default, at_Current = On, nextEvent = SwitchOff\<rparr>,
        \<lparr>at_Previous = On, at_Current = Off, nextEvent = NoOp\<rparr>]"]
  by (simp add: unfold_run timerFSM_def TimerAction_def OffAction_def constants)

text \<open>
  C6, as stated: a call ends only when an action returns \<open>NoOp\<close> or an event is rejected,
  and in a machine all of whose actions return \<open>NoOp\<close> every call whose event is
  accepted ends after one transition and one call of an action. There is a third way
  for a call to end, and an accepted call that runs no action: in the light switch
  wired without the action of \<open>Off\<close>, the only action returns \<open>NoOp\<close>, \<open>Default\<close> accepts
  \<open>SwitchOff\<close>, and the call ends in the panic, with the transition made and an empty log.
\<close>

theorem accepted_without_action_counterexample:
  "all_NoOp (States miswiredFSM) \<and>
   getNextState miswiredFSM SwitchOff = (Off, None) \<and>
   SendEvent miswiredFSM SwitchOff [] =
     Some (Panicked NilDereference, miswiredFSM\<lparr>Previous := Default, Current := Off\<rparr>, [], [])"
proof (intro conjI)
  show "all_NoOp (States miswiredFSM)"
    by (auto simp: all_NoOp_def miswiredFSM_def OnAction_def constants split: if_splits)
  show "getNextState miswiredFSM SwitchOff = (Off, None)"
    by (simp add: getNextState_def miswiredFSM_def constants)
  show "SendEvent miswiredFSM SwitchOff [] =
     Some (Panicked NilDereference, miswiredFSM\<lparr>Previous := Default, Current := Off\<rparr>, [], [])"
    by (simp add: unfold_run miswiredFSM_def constants)
qed

text \<open>
  C6, amended; what a call does at a destination with no action is left out.

  \<^item> A call returns only when an action has returned \<open>NoOp\<close>, and then it returns nil, or
    when an event is rejected, and then it returns \<open>ErrEventRejected\<close>: the event
    submitted if no action ran, the event returned by the last action otherwise.
  \<^item> If the event is accepted and leads into a set \<open>R\<close> of states, each with an action
    that never returns \<open>NoOp\<close> and with a table that sends what the action returns into
    \<open>R\<close> again, the call never ends.
  \<^item> If every action of the machine returns \<open>NoOp\<close>, the event is accepted and its
    destination has an action, the call returns nil after one transition and one call
    of \<open>Execute\<close>.
\<close>

theorem SendEvent_endings:
  "(SendEvent s event c = Some (Returned e, s', c', log) \<longrightarrow>
      e = None \<and> log \<noteq> [] \<and> nextEvent (last log) = NoOp \<or>
      e = Some ErrEventRejected \<and> snd (getNextState s' (pending event log)) \<noteq> None) \<and>
   (cascades_forever (States s) R \<and> getNextState s event = (n, None) \<and> n \<in> R \<longrightarrow>
      SendEvent s event c = None) \<and>
   (all_NoOp (States s) \<and> getNextState s event = (n, None) \<and>
    States s n = Some state \<and> Action state = Some a \<longrightarrow>
      SendEvent s event c =
        Some (Returned None, s\<lparr>Previous := Current s, Current := n\<rparr>, snd (a c),
              [\<lparr>at_Previous = Current s, at_Current = n, nextEvent = NoOp\<rparr>]))"
proof (intro conjI impI)
  assume "SendEvent s event c = Some (Returned e, s', c', log)"
  then have "SendEvent_loop s event c [] = Some (Returned e, s', c', log)"
    by (simp add: SendEvent_def)
  from loop_exit [OF this]
  show "e = None \<and> log \<noteq> [] \<and> nextEvent (last log) = NoOp \<or>
        e = Some ErrEventRejected \<and> snd (getNextState s' (pending event log)) \<noteq> None"
    by (cases e) simp_all
next
  assume "cascades_forever (States s) R \<and> getNextState s event = (n, None) \<and> n \<in> R"
  then show "SendEvent s event c = None"
    unfolding SendEvent_def by (blast intro: loop_never_ends)
next
  assume h: "all_NoOp (States s) \<and> getNextState s event = (n, None) \<and>
             States s n = Some state \<and> Action state = Some a"
  then have "fst (a c) = NoOp"
    unfolding all_NoOp_def by blast
  then have a: "a c = (NoOp, snd (a c))"
    by (metis prod.collapse)
  from h have "Action (fst (lookup_State (States s) n)) = Some a"
    by (simp add: lookup_State_def)
  with h show "SendEvent s event c =
        Some (Returned None, s\<lparr>Previous := Current s, Current := n\<rparr>, snd (a c),
              [\<lparr>at_Previous = Current s, at_Current = n, nextEvent = NoOp\<rparr>])"
    using loop_execute [of s event n a c NoOp "snd (a c)" "[]"] a
    by (simp add: SendEvent_def)
qed

theorem SendEvent_endings_witness:
  "cascades_forever (States blinkerFSM) {Off, On} \<and>
   getNextState blinkerFSM SwitchOff = (Off, None) \<and>
   SendEvent blinkerFSM SwitchOff 0 = None \<and>
   all_NoOp (States newLightSwitchFSM) \<and>
   getNextState newLightSwitchFSM SwitchOff = (Off, None) \<and>
   SendEvent newLightSwitchFSM SwitchOff [] =
     Some (Returned None, newLightSwitchFSM\<lparr>Previous := Default, Current := Off\<rparr>,
           [''The light has been switched off''],
           [\<lparr>at_Previous = Default, at_Current = Off, nextEvent = NoOp\<rparr>]) \<and>
   nextEvent (last [\<lparr>at_Previous = Default, at_Current = Off, nextEvent = NoOp\<rparr>]) = NoOp \<and>
   SendEvent newLightSwitchFSM SwitchOn [] =
     Some (Returned (Some ErrEventRejected), newLightSwitchFSM, [], []) \<and>
   snd (getNextState newLightSwitchFSM (pending SwitchOn [])) \<noteq> None"
proof -
  have cf: "cascades_forever (States blinkerFSM) {Off, On}"
    by (simp add: cascades_forever_def blinkerFSM_def BlinkOffAction_def BlinkOnAction_def
        constants)
  have gb: "getNextState blinkerFSM SwitchOff = (Off, None)"
    by (simp add: getNextState_def blinkerFSM_def constants)
  have an: "all_NoOp (States newLightSwitchFSM)"
    by (auto simp: all_NoOp_def newLightSwitchFSM_def OffAction_def OnAction_def constants
        split: if_splits)
  have gl: "getNextState newLightSwitchFSM SwitchOff = (Off, None)"
    by (simp add: getNextState_def newLightSwitchFSM_def constants)
  have off: "States newLightSwitchFSM Off =
      Some \<lparr>Action = Some OffAction, Events = Some [SwitchOn \<mapsto> On]\<rparr>"
    by (simp add: newLightSwitchFSM_def constants)
  have rej: "SendEvent newLightSwitchFSM SwitchOn [] =
      Some (Returned (Some ErrEventRejected), newLightSwitchFSM, [], [])"
    by (simp add: unfold_run newLightSwitchFSM_def constants)
  have cur: "Current newLightSwitchFSM = Default"
    by (simp add: newLightSwitchFSM_def)
  from cf gb an gl off rej cur show ?thesis
    using SendEvent_endings [of blinkerFSM SwitchOff 0 _ _ _ _ "{Off, On}" Off]
      SendEvent_endings [of newLightSwitchFSM SwitchOff "[]" _ _ _ _ _ Off
        "\<lparr>Action = Some OffAction, Events = Some [SwitchOn \<mapsto> On]\<rparr>" OffAction]
      SendEvent_endings [of newLightSwitchFSM SwitchOn "[]" "Some ErrEventRejected"
        newLightSwitchFSM "[]" "[]"]
    by (simp add: OffAction_def pending_def)
qed

text \<open>
  C7. The light switch, starting in \<open>Default\<close>: \<open>SwitchOff\<close>, \<open>SwitchOn\<close>, \<open>SwitchOff\<close>, each
  sent to the machine as the call before left it, all three return nil; after the
  third call \<open>Current\<close> is \<open>Off\<close> and \<open>Previous\<close> is \<open>On\<close>. Each call runs one action, and
  the three lines are printed in order.
\<close>

theorem light_switch_alternation:
  "Current newLightSwitchFSM = Default \<and>
   SendEvent newLightSwitchFSM SwitchOff [] =
     Some (Returned None, newLightSwitchFSM\<lparr>Previous := Default, Current := Off\<rparr>,
           [''The light has been switched off''],
           [\<lparr>at_Previous = Default, at_Current = Off, nextEvent = NoOp\<rparr>]) \<and>
   SendEvent (newLightSwitchFSM\<lparr>Previous := Default, Current := Off\<rparr>) SwitchOn
       [''The light has been switched off''] =
     Some (Returned None, newLightSwitchFSM\<lparr>Previous := Off, Current := On\<rparr>,
           [''The light has been switched off'', ''The light has been switched on''],
           [\<lparr>at_Previous = Off, at_Current = On, nextEvent = NoOp\<rparr>]) \<and>
   SendEvent (newLightSwitchFSM\<lparr>Previous := Off, Current := On\<rparr>) SwitchOff
       [''The light has been switched off'', ''The light has been switched on''] =
     Some (Returned None, newLightSwitchFSM\<lparr>Previous := On, Current := Off\<rparr>,
           [''The light has been switched off'', ''The light has been switched on'',
            ''The light has been switched off''],
           [\<lparr>at_Previous = On, at_Current = Off, nextEvent = NoOp\<rparr>]) \<and>
   Current (newLightSwitchFSM\<lparr>Previous := On, Current := Off\<rparr>) = Off \<and>
   Previous (newLightSwitchFSM\<lparr>Previous := On, Current := Off\<rparr>) = On"
  by (simp add: unfold_run newLightSwitchFSM_def OffAction_def OnAction_def constants)

text \<open>
  C8. Whatever way a call of \<open>SendEvent\<close> ends (nil, \<open>ErrEventRejected\<close> or the panic),
  the field \<open>States\<close> is afterwards what it was before: the machine after the call is
  the machine before it with \<open>Previous\<close> and \<open>Current\<close> written, and nothing else.
\<close>

theorem SendEvent_frame:
  assumes "SendEvent s event c = Some (out, s', c', log)"
  shows "States s' = States s \<and> s' = s\<lparr>Previous := Previous s', Current := Current s'\<rparr>"
proof -
  from assms have "SendEvent_loop s event c [] = Some (out, s', c', log)"
    by (simp add: SendEvent_def)
  from loop_frame [OF this] have eq: "s' = s\<lparr>Previous := Previous s', Current := Current s'\<rparr>"
    by simp
  then have "States s' = States (s\<lparr>Previous := Previous s', Current := Current s'\<rparr>)"
    by simp
  with eq show ?thesis
    by simp
qed

theorem SendEvent_frame_witness:
  "SendEvent newLightSwitchFSM SwitchOff [] =
     Some (Returned None, newLightSwitchFSM\<lparr>Previous := Default, Current := Off\<rparr>,
           [''The light has been switched off''],
           [\<lparr>at_Previous = Default, at_Current = Off, nextEvent = NoOp\<rparr>]) \<and>
   States (newLightSwitchFSM\<lparr>Previous := Default, Current := Off\<rparr>) = States newLightSwitchFSM"
  using SendEvent_frame [of newLightSwitchFSM SwitchOff "[]" "Returned None"
      "newLightSwitchFSM\<lparr>Previous := Default, Current := Off\<rparr>"
      "[''The light has been switched off'']"
      "[\<lparr>at_Previous = Default, at_Current = Off, nextEvent = NoOp\<rparr>]"]
  by (simp add: unfold_run newLightSwitchFSM_def OffAction_def constants)

text \<open>
  C10, as stated: \<open>NoOp\<close> submitted from outside is resolved like any event, and with an
  entry for \<open>NoOp\<close> in the table of the current state the machine makes the transition
  and runs the action of the destination. It need not run an action: in the switch
  with an entry for \<open>NoOp\<close> and no action at \<open>Off\<close>, the table of \<open>Default\<close> sends \<open>NoOp\<close>
  to \<open>Off\<close>, the transition is made, and the call ends in the panic with an empty log.
\<close>

theorem NoOp_submitted_without_action_counterexample:
  "States noopMiswiredFSM (Current noopMiswiredFSM) =
     Some \<lparr>Action = None, Events = Some [NoOp \<mapsto> Off, SwitchOff \<mapsto> Off]\<rparr> \<and>
   [NoOp \<mapsto> Off, SwitchOff \<mapsto> Off] NoOp = Some Off \<and>
   SendEvent noopMiswiredFSM NoOp [] =
     Some (Panicked NilDereference, noopMiswiredFSM\<lparr>Previous := Default, Current := Off\<rparr>,
           [], [])"
  by (simp add: unfold_run noopMiswiredFSM_def constants)

text \<open>
  C10, amended; what a call does at a destination with no action is left out.
  \<open>SendEvent\<close> does not look at the event it is given before it resolves it: \<open>NoOp\<close>
  submitted from outside is looked up in the transition table of the current state
  like any event.

  \<^item> If the current state is not declared, or its table is nil or has no entry for
    \<open>NoOp\<close>, the call returns \<open>ErrEventRejected\<close>, with no transition and no action.
  \<^item> If the table has an entry for \<open>NoOp\<close> and the destination has an action, the
    machine makes the transition and the action runs; the call returns nil if the
    action returns \<open>NoOp\<close> and goes on with the event returned otherwise.
  \<^item> A call with \<open>NoOp\<close> does what a call with any event that \<open>getNextState\<close> resolves
    in the same way does.
\<close>

theorem SendEvent_NoOp_submitted:
  "(States s (Current s) = None \<or>
    (\<exists>cur. States s (Current s) = Some cur \<and>
       (Events cur = None \<or> (\<exists>evs. Events cur = Some evs \<and> evs NoOp = None))) \<longrightarrow>
      SendEvent s NoOp c = Some (Returned (Some ErrEventRejected), s, c, [])) \<and>
   (States s (Current s) = Some cur \<and> Events cur = Some evs \<and> evs NoOp = Some n \<and>
    States s n = Some state \<and> Action state = Some a \<and> a c = (ev, c') \<longrightarrow>
      SendEvent s NoOp c =
        (if ev = NoOp
         then Some (Returned None, s\<lparr>Previous := Current s, Current := n\<rparr>, c',
                    [\<lparr>at_Previous = Current s, at_Current = n, nextEvent = ev\<rparr>])
         else SendEvent_loop (s\<lparr>Previous := Current s, Current := n\<rparr>) ev c'
                    [\<lparr>at_Previous = Current s, at_Current = n, nextEvent = ev\<rparr>])) \<and>
   (getNextState s NoOp = getNextState s event \<longrightarrow>
      SendEvent s NoOp c = SendEvent s event c)"
proof (intro conjI impI)
  assume "States s (Current s) = None \<or>
    (\<exists>cur. States s (Current s) = Some cur \<and>
       (Events cur = None \<or> (\<exists>evs. Events cur = Some evs \<and> evs NoOp = None)))"
  then have "snd (getNextState s NoOp) \<noteq> None"
    by (simp only: getNextState_rejects)
  then show "SendEvent s NoOp c = Some (Returned (Some ErrEventRejected), s, c, [])"
    unfolding SendEvent_def by (rule loop_rejected)
next
  assume h: "States s (Current s) = Some cur \<and> Events cur = Some evs \<and> evs NoOp = Some n \<and>
             States s n = Some state \<and> Action state = Some a \<and> a c = (ev, c')"
  then have g: "getNextState s NoOp = (n, None)"
    by (simp add: getNextState_def)
  from h have a: "Action (fst (lookup_State (States s) n)) = Some a"
    by (simp add: lookup_State_def)
  from h have "a c = (ev, c')"
    by simp
  from loop_execute [OF g a this, of "[]"]
  show "SendEvent s NoOp c =
          (if ev = NoOp
           then Some (Returned None, s\<lparr>Previous := Current s, Current := n\<rparr>, c',
                      [\<lparr>at_Previous = Current s, at_Current = n, nextEvent = ev\<rparr>])
           else SendEvent_loop (s\<lparr>Previous := Current s, Current := n\<rparr>) ev c'
                      [\<lparr>at_Previous = Current s, at_Current = n, nextEvent = ev\<rparr>])"
    by (simp add: SendEvent_def)
next
  assume "getNextState s NoOp = getNextState s event"
  then show "SendEvent s NoOp c = SendEvent s event c"
    using SendEvent_loop.simps [of s NoOp c "[]"] SendEvent_loop.simps [of s event c "[]"]
    by (simp add: SendEvent_def)
qed

theorem SendEvent_NoOp_submitted_witness:
  "States noopFSM (Current noopFSM) =
     Some \<lparr>Action = None, Events = Some [NoOp \<mapsto> Off, SwitchOff \<mapsto> Off]\<rparr> \<and>
   [NoOp \<mapsto> Off, SwitchOff \<mapsto> Off] NoOp = Some Off \<and>
   SendEvent noopFSM NoOp [] =
     Some (Returned None, noopFSM\<lparr>Previous := Default, Current := Off\<rparr>,
           [''The light has been switched off''],
           [\<lparr>at_Previous = Default, at_Current = Off, nextEvent = NoOp\<rparr>]) \<and>
   getNextState noopFSM NoOp = getNextState noopFSM SwitchOff \<and>
   SendEvent noopFSM NoOp [] = SendEvent noopFSM SwitchOff [] \<and>
   States newLightSwitchFSM (Current newLightSwitchFSM) =
     Some \<lparr>Action = None, Events = Some [SwitchOff \<mapsto> Off]\<rparr> \<and>
   [SwitchOff \<mapsto> Off] NoOp = None \<and>
   SendEvent newLightSwitchFSM NoOp [] =
     Some (Returned (Some ErrEventRejected), newLightSwitchFSM, [], [])"
proof -
  have 1: "States noopFSM (Current noopFSM) =
      Some \<lparr>Action = None, Events = Some [NoOp \<mapsto> Off, SwitchOff \<mapsto> Off]\<rparr>"
    by (simp add: noopFSM_def constants)
  have 2: "States noopFSM Off = Some \<lparr>Action = Some OffAction, Events = Some [SwitchOn \<mapsto> On]\<rparr>"
    by (simp add: noopFSM_def constants)
  have 3: "States newLightSwitchFSM (Current newLightSwitchFSM) =
      Some \<lparr>Action = None, Events = Some [SwitchOff \<mapsto> Off]\<rparr>"
    by (simp add: newLightSwitchFSM_def constants)
  have 4: "getNextState noopFSM NoOp = getNextState noopFSM SwitchOff"
    by (simp add: getNextState_def noopFSM_def constants)
  have 5: "Current noopFSM = Default"
    by (simp add: noopFSM_def)
  have 6: "OffAction [] = (NoOp, [''The light has been switched off''])"
    by (simp add: OffAction_def)
  have 7: "[NoOp \<mapsto> Off, SwitchOff \<mapsto> Off] NoOp = Some Off"
    by (simp add: constants)
  have 8: "[SwitchOff \<mapsto> Off] NoOp = None"
    by (simp add: constants)
  note noop = SendEvent_NoOp_submitted [of noopFSM "[]"
        "\<lparr>Action = None, Events = Some [NoOp \<mapsto> Off, SwitchOff \<mapsto> Off]\<rparr>"
        "[NoOp \<mapsto> Off, SwitchOff \<mapsto> Off]" Off
        "\<lparr>Action = Some OffAction, Events = Some [SwitchOn \<mapsto> On]\<rparr>" OffAction NoOp
        "[''The light has been switched off'']" SwitchOff]
  from noop 1 2 5 6 7 have 9: "SendEvent noopFSM NoOp [] =
     Some (Returned None, noopFSM\<lparr>Previous := Default, Current := Off\<rparr>,
           [''The light has been switched off''],
           [\<lparr>at_Previous = Default, at_Current = Off, nextEvent = NoOp\<rparr>])"
    by simp
  from noop 4 have 10: "SendEvent noopFSM NoOp [] = SendEvent noopFSM SwitchOff []"
    by blast
  from SendEvent_NoOp_submitted [of newLightSwitchFSM "[]"] 3 8
  have 11: "SendEvent newLightSwitchFSM NoOp [] =
     Some (Returned (Some ErrEventRejected), newLightSwitchFSM, [], [])"
    by simp
  from 1 7 9 4 10 3 8 11 show ?thesis
    by (intro conjI)
qed

end
